theory Spec2Isabelle
  imports Main "HOL-Library.Sublist"
begin

section \<open>JavaScript values and objects\<close>

text \<open>
  The values the modelled functions handle. An object lives in a store and is named by
  its address, so that "the same object" is "the same address"; its properties are a
  map from property names to values. Objects are plain and extensible (no setters, not
  frozen), as a telemetry request is.
\<close>

type_synonym addr = nat

datatype jsval =
    Undefined
  | Null
  | Number int
  | Str string
  | Boolean bool
  | Ref addr

type_synonym obj = "string \<rightharpoonup> jsval"

type_synonym store = "addr \<rightharpoonup> obj"

datatype js_error = TypeError | Thrown jsval

text \<open>How a promise ends: fulfilled with a value, rejected, or never settled.\<close>

datatype 'a outcome = Fulfilled 'a | Rejected js_error | Pending

text \<open>
  Reading property \<open>p\<close> of a value, as \<open>const { p } = v\<close> does: a TypeError on
  \<open>undefined\<close> and \<open>null\<close>, \<open>undefined\<close> for a property the value does not have
  (a primitive has neither \<open>start\<close> nor \<open>end\<close>).
\<close>

definition getProp :: "store \<Rightarrow> jsval \<Rightarrow> string \<Rightarrow> js_error + jsval" where
  "getProp h v p =
     (case v of
        Undefined \<Rightarrow> Inl TypeError
      | Null \<Rightarrow> Inl TypeError
      | Ref a \<Rightarrow>
          (case h a of
             None \<Rightarrow> Inr Undefined
           | Some ob \<Rightarrow> (case ob p of None \<Rightarrow> Inr Undefined | Some x \<Rightarrow> Inr x))
      | _ \<Rightarrow> Inr Undefined)"

text \<open>
  The assignment \<open>v.p = x\<close> in strict code (the file is an ES module): it creates or
  overwrites the property of an object, and is a TypeError on every other value.
\<close>

definition setProp :: "store \<Rightarrow> jsval \<Rightarrow> string \<Rightarrow> jsval \<Rightarrow> js_error + store" where
  "setProp h v p x =
     (case v of
        Ref a \<Rightarrow>
          (case h a of
             None \<Rightarrow> Inl TypeError
           | Some ob \<Rightarrow> Inr (h(a \<mapsto> ob(p \<mapsto> x))))
      | _ \<Rightarrow> Inl TypeError)"

section \<open>The remote clock request interceptor\<close>

text \<open>
  \<open>remoteClockRequestInterceptor(openmct, remoteClockIdentifier, waitForBounds)\<close> returns
  two closures over one variable, \<open>remoteClockLoaded\<close>, initially \<open>false\<close>. The variable
  is the interceptor's whole state.
\<close>

record clock =
  key :: string

record time_context =
  activeClock :: "clock option"

record interceptor =
  remoteClockLoaded :: bool

definition remoteClockRequestInterceptor :: interceptor where
  "remoteClockRequestInterceptor = \<lparr>remoteClockLoaded = False\<rparr>"

text \<open>
  \<open>appliesTo\<close> reads the time context of the view (\<open>openmct.time.getContextForView()\<close>,
  the host's answer at the moment of the call) and the flag. \<open>activeClock\<close> is
  \<open>None\<close> where the source has \<open>undefined\<close>.
\<close>

definition appliesTo :: "interceptor \<Rightarrow> time_context \<Rightarrow> bool" where
  "appliesTo st ctx =
     (case activeClock ctx of
        None \<Rightarrow> False
      | Some c \<Rightarrow> key c = ''remote-clock'' \<and> \<not> remoteClockLoaded st)"

text \<open>
  \<open>invoke(request)\<close> is asynchronous: it calls \<open>waitForBounds()\<close> and suspends. What
  follows the \<open>await\<close> runs when that promise settles, on the store as it is then. The
  model takes the way the promise ends as an argument and returns the interceptor, the store
  and the way the promise of \<open>invoke\<close> ends. The flag is set before the two assignments,
  so an assignment that throws leaves it set.
\<close>

definition invoke ::
  "interceptor \<Rightarrow> store \<Rightarrow> jsval \<Rightarrow> jsval outcome \<Rightarrow> interceptor \<times> store \<times> jsval outcome"
where
  "invoke st h request waited =
     (case waited of
        Pending \<Rightarrow> (st, h, Pending)
      | Rejected e \<Rightarrow> (st, h, Rejected e)
      | Fulfilled b \<Rightarrow>
          (case getProp h b ''start'' of
             Inl e \<Rightarrow> (st, h, Rejected e)
           | Inr start \<Rightarrow>
               (case getProp h b ''end'' of
                  Inl e \<Rightarrow> (st, h, Rejected e)
                | Inr end' \<Rightarrow>
                    (let st1 = st\<lparr>remoteClockLoaded := True\<rparr> in
                     case setProp h request ''start'' start of
                       Inl e \<Rightarrow> (st1, h, Rejected e)
                     | Inr h1 \<Rightarrow>
                         (case setProp h1 request ''end'' end' of
                            Inl e \<Rightarrow> (st1, h1, Rejected e)
                          | Inr h2 \<Rightarrow> (st1, h2, Fulfilled request))))))"

text \<open>
  A history of the interceptor: the invocations in the order in which they resume, each
  with its request and the way its \<open>waitForBounds()\<close> ended. \<open>appliesTo\<close> changes
  nothing, so it is no part of a history.
\<close>

fun resumeAll :: "(jsval \<times> jsval outcome) list \<Rightarrow> interceptor \<times> store \<Rightarrow> interceptor \<times> store" where
  "resumeAll [] sh = sh"
| "resumeAll ((request, waited) # rest) (st, h) =
     (case invoke st h request waited of (st', h', _) \<Rightarrow> resumeAll rest (st', h'))"

text \<open>An invocation gets past its \<open>await\<close> when the bounds arrived and can be destructured.\<close>

definition boundsArrived :: "jsval outcome \<Rightarrow> bool" where
  "boundsArrived waited =
     (case waited of
        Fulfilled b \<Rightarrow> b \<noteq> Undefined \<and> b \<noteq> Null
      | _ \<Rightarrow> False)"

definition remoteClockActive :: "time_context \<Rightarrow> bool" where
  "remoteClockActive ctx =
     (case activeClock ctx of None \<Rightarrow> False | Some c \<Rightarrow> key c = ''remote-clock'')"

text \<open>
  For the examples: the time context of a remote clock, a store with two requests (at 0
  and 1) and the bounds (at 2), and two invocations that were both called before either
  resumed: the first resumes on that store, the second on what the first leaves.
\<close>

definition remoteClockContext :: time_context where
  "remoteClockContext = \<lparr>activeClock = Some \<lparr>key = ''remote-clock''\<rparr>\<rparr>"

definition twoRequests :: store where
  "twoRequests =
     [0 \<mapsto> Map.empty, 1 \<mapsto> Map.empty, 2 \<mapsto> [''start'' \<mapsto> Number 5, ''end'' \<mapsto> Number 9]]"

definition firstResumed :: "interceptor \<times> store \<times> jsval outcome" where
  "firstResumed = invoke remoteClockRequestInterceptor twoRequests (Ref 0) (Fulfilled (Ref 2))"

definition secondResumed :: "interceptor \<times> store \<times> jsval outcome" where
  "secondResumed = invoke (fst firstResumed) (fst (snd firstResumed)) (Ref 1) (Fulfilled (Ref 2))"

section \<open>JavaScript strings\<close>

text \<open>
  The three string operations \<open>clickedResult\<close> uses, on strings as lists of characters,
  written in the source's argument order: \<open>s.includes(sub)\<close>, \<open>s.split(sep)\<close> and
  \<open>pieces.join(sep)\<close>. \<open>split\<close> looks for the separator from the left and resumes
  behind each occurrence; with the empty separator it gives the single characters.
\<close>

fun js_includes :: "'a list \<Rightarrow> 'a list \<Rightarrow> bool" where
  "js_includes [] sub = (sub = [])"
| "js_includes (c # cs) sub = (prefix sub (c # cs) \<or> js_includes cs sub)"

function splitOn :: "'a list \<Rightarrow> 'a list \<Rightarrow> 'a list list" where
  "splitOn sep [] = [[]]"
| "splitOn sep (c # cs) =
     (if sep \<noteq> [] \<and> prefix sep (c # cs)
      then [] # splitOn sep (drop (length sep) (c # cs))
      else (case splitOn sep cs of
              [] \<Rightarrow> [[c]]
            | p # ps \<Rightarrow> (c # p) # ps))"
  by pat_completeness auto
termination
  by (relation "measure (\<lambda>(sep, s). length s)") (auto simp: neq_Nil_conv)

definition js_split :: "'a list \<Rightarrow> 'a list \<Rightarrow> 'a list list" where
  "js_split s sep = (if sep = [] then map (\<lambda>c. [c]) s else splitOn sep s)"

fun js_join :: "'a list list \<Rightarrow> 'a list \<Rightarrow> 'a list" where
  "js_join [] sep = []"
| "js_join [x] sep = x"
| "js_join (x # y # ys) sep = x @ sep @ js_join (y # ys) sep"

section \<open>The search result component\<close>

text \<open>
  \<open>ObjectSearchResult.vue\<close>. A result carries a name, a type, an identifier and the
  path it was found at. The component reaches the host through the injected \<open>openmct\<close>
  object; the services it calls are the fields of the record \<open>openmct\<close> below, each the
  host's answer: \<open>editor.isEditing()\<close>, \<open>objectPathToUrl(openmct, path)\<close>,
  \<open>previewAction.appliesTo(path)\<close>, \<open>router.path\<close>, \<open>objects.makeKeyString(identifier)\<close>,
  \<open>composition.checkPolicy(parent, child)\<close>, and \<open>JSON.stringify\<close> at the two types
  it is used at.
\<close>

record ('i, 'o) search_result =
  name :: string
  type :: string
  identifier' :: 'i
  originalPath :: "'o list"

record ('i, 'o) openmct =
  isEditing :: bool
  objectPathToUrl :: "'o list \<Rightarrow> string"
  previewAppliesTo :: "'o list \<Rightarrow> bool"
  routerPath :: "'o list"
  makeKeyString :: "'i \<Rightarrow> string"
  checkPolicy :: "'o option \<Rightarrow> ('i, 'o) search_result \<Rightarrow> bool"
  stringifyResult :: "('i, 'o) search_result \<Rightarrow> string"
  stringifyPath :: "'o list \<Rightarrow> string"

text \<open>What a click does to the outside, in order.\<close>

datatype 'o click_effect =
    PreventDefault
  | PreviewInvoke "'o list"
  | Navigate string

definition preview :: "('i, 'o) openmct \<Rightarrow> ('i, 'o) search_result \<Rightarrow> 'o click_effect list" where
  "preview openmct result =
     (let objectPath = originalPath result in
      if previewAppliesTo openmct objectPath then [PreviewInvoke objectPath] else [])"

definition clickedResult :: "('i, 'o) openmct \<Rightarrow> ('i, 'o) search_result \<Rightarrow> 'o click_effect list" where
  "clickedResult openmct result =
     (if isEditing openmct then PreventDefault # preview openmct result
      else
        (let objectPath = originalPath result;
             resultUrl = objectPathToUrl openmct objectPath;
             resultUrl' = (if js_includes resultUrl ''/ROOT''
                           then js_join (js_split resultUrl ''/ROOT'') []
                           else resultUrl)
         in [Navigate resultUrl']))"

text \<open>
  The drag data store: \<open>setData(format, data)\<close> keeps one entry per format. The third
  call of \<open>dragStart\<close> hands over the result itself, the other two a string.
\<close>

datatype ('i, 'o) transfer_data =
    Text string
  | Object "('i, 'o) search_result"

type_synonym ('i, 'o) dataTransfer = "string \<rightharpoonup> ('i, 'o) transfer_data"

definition setData ::
  "string \<Rightarrow> ('i, 'o) transfer_data \<Rightarrow> ('i, 'o) dataTransfer \<Rightarrow> ('i, 'o) dataTransfer" where
  "setData format d dt = dt(format \<mapsto> d)"

definition navigatedObject :: "('i, 'o) openmct \<Rightarrow> 'o option" where
  "navigatedObject openmct = (case routerPath openmct of [] \<Rightarrow> None | x # _ \<Rightarrow> Some x)"

definition dragStart ::
  "('i, 'o) openmct \<Rightarrow> ('i, 'o) search_result \<Rightarrow> ('i, 'o) dataTransfer \<Rightarrow> ('i, 'o) dataTransfer" where
  "dragStart openmct result dt =
     (let objectPath = originalPath result;
          serializedPath = stringifyPath openmct objectPath;
          keyString = makeKeyString openmct (identifier' result);
          dt1 = (if checkPolicy openmct (navigatedObject openmct) result
                 then setData ''openmct/composable-domain-object''
                        (Text (stringifyResult openmct result)) dt
                 else dt);
          dt2 = setData ''openmct/domain-object-path'' (Text serializedPath) dt1
      in setData (''openmct/domain-object/'' @ keyString) (Object result) dt2)"

text \<open>Two inputs for the examples below: a host that is browsing (not editing), whose
  composition policy refuses every drop and whose preview action applies to nothing, and a
  result found under the root.\<close>

definition browsingHost :: "(string, string) openmct" where
  "browsingHost =
     \<lparr>isEditing = False,
      objectPathToUrl = (\<lambda>path. ''/browse'' @ concat (map (\<lambda>k. CHR ''/'' # k) (rev path))),
      previewAppliesTo = (\<lambda>path. False),
      routerPath = [],
      makeKeyString = (\<lambda>i. i),
      checkPolicy = (\<lambda>parent child. False),
      stringifyResult = name,
      stringifyPath = concat\<rparr>"

definition mineResult :: "(string, string) search_result" where
  "mineResult =
     \<lparr>name = ''mine'', type = ''folder'', identifier' = ''mine'',
      originalPath = [''mine'', ''ROOT'']\<rparr>"

text \<open>
  A URL by its segments: what stands before the first slash, then each segment behind a
  slash. A second result for the examples, found under an object whose key begins with
  \<open>ROOT\<close>.
\<close>

definition urlOfSegments :: "string \<Rightarrow> string list \<Rightarrow> string" where
  "urlOfSegments pre segs = pre @ concat (map (\<lambda>seg. CHR ''/'' # seg) segs)"

definition rootsResult :: "(string, string) search_result" where
  "rootsResult =
     \<lparr>name = ''x'', type = ''folder'', identifier' = ''x'',
      originalPath = [''x'', ''ROOTS'']\<rparr>"

section \<open>The time conductor\<close>

text \<open>
  The end-to-end tests drive the time conductor through the page; the code of the
  conductor is not among the sources. What follows is its controller as sections 3 and 4.1
  of the specification describe it, and the two constants the test
  \<open>preserve offsets and url params when switching between fixed and real-time mode\<close>
  computes.
\<close>

text \<open>Modelled from the spec: the mode of the TimeBoundsController, \<open>Fixed | RealTime\<close>
  (the controller's code is missing from the sources).\<close>

datatype mode = Fixed | RealTime


text \<open>Modelled from the spec: an offset, composed of hours, minutes and seconds, each a
  non-negative magnitude (the controller's code is missing).\<close>

record offset =
  hours :: nat
  minutes :: nat
  seconds :: nat

text \<open>Modelled from the spec: TimeBounds, two absolute instants in milliseconds (the
  controller's code is missing).\<close>

record time_bounds =
  startBound :: int
  endBound :: int

text \<open>Modelled from the spec: the state the TimeBoundsController owns: the active mode, the
  current bounds and the two offsets (the controller's code is missing).\<close>

record controller =
  mode :: mode
  bounds :: time_bounds
  startOffset :: offset
  endOffset :: offset

text \<open>Modelled from the spec: the ConfigurationError of section 7, a missing active clock
  when real-time mode is requested (the controller's code is missing).\<close>

datatype configuration_error = ConfigurationError

text \<open>Modelled from the spec: the conversion of an offset to a single duration in
  milliseconds (the controller's code is missing).\<close>

definition offsetMs :: "offset \<Rightarrow> int" where
  "offsetMs off = int (hours off) * 3600000 + int (minutes off) * 60000 + int (seconds off) * 1000"

text \<open>Modelled from the spec: the bounds derived from "now" and the two offsets, the start
  offset looking backward and the end offset forward (the controller's code is missing).\<close>

definition boundsAt :: "int \<Rightarrow> controller \<Rightarrow> time_bounds" where
  "boundsAt now c =
     \<lparr>startBound = now - offsetMs (startOffset c), endBound = now + offsetMs (endOffset c)\<rparr>"

text \<open>Modelled from the spec: \<open>setMode\<close> (the controller's code is missing). The first
  argument is what the host clock supplies: \<open>None\<close> for an undefined active clock,
  otherwise its "now", which changes only at a tick. Switching into RealTime recomputes
  the bounds from now and the offsets; switching into Fixed freezes them; real-time mode
  without a clock is a ConfigurationError and no fall back to fixed bounds.\<close>

definition setMode :: "int option \<Rightarrow> mode \<Rightarrow> controller \<Rightarrow> configuration_error + controller" where
  "setMode activeClockNow m c =
     (case m of
        Fixed \<Rightarrow> Inr (c\<lparr>mode := Fixed\<rparr>)
      | RealTime \<Rightarrow>
          (case activeClockNow of
             None \<Rightarrow> Inl ConfigurationError
           | Some now \<Rightarrow> Inr (c\<lparr>mode := RealTime, bounds := boundsAt now c\<rparr>)))"

text \<open>Modelled from the spec: the clock tick, on which RealTime mode recomputes the bounds
  from now and the offsets, and Fixed mode keeps them frozen (the controller's code is
  missing).\<close>

definition tick :: "int \<Rightarrow> controller \<Rightarrow> controller" where
  "tick now c = (if mode c = RealTime then c\<lparr>bounds := boundsAt now c\<rparr> else c)"

text \<open>Modelled from the spec: a session of mode switches and clock ticks, each switch with
  what the host clock supplies at that moment. A switch that ends in the
  ConfigurationError is reported to the host and leaves the committed state as it was
  (the controller's code is missing).\<close>

datatype conductor_event = SwitchMode "int option" mode | ClockTick int

fun session :: "conductor_event list \<Rightarrow> controller \<Rightarrow> controller" where
  "session [] c = c"
| "session (SwitchMode activeClockNow m # evs) c =
     (case setMode activeClockNow m c of
        Inl err \<Rightarrow> session evs c
      | Inr c' \<Rightarrow> session evs c')"
| "session (ClockTick now # evs) c = session evs (tick now c)"





text \<open>A controller for the examples: fixed mode, with offsets of thirty minutes and thirty
  seconds.\<close>

definition exampleController :: controller where
  "exampleController =
     \<lparr>mode = Fixed,
      bounds = \<lparr>startBound = 0, endBound = 1000\<rparr>,
      startOffset = \<lparr>hours = 0, minutes = 30, seconds = 0\<rparr>,
      endOffset = \<lparr>hours = 0, minutes = 0, seconds = 30\<rparr>\<rparr>"


section \<open>Properties of the interceptor\<close>

lemma getProp_error: "getProp h v p = Inl e \<longleftrightarrow> (v = Undefined \<or> v = Null) \<and> e = TypeError"
  by (auto simp: getProp_def split: jsval.splits option.splits)

lemma getProp_total: "v \<noteq> Undefined \<Longrightarrow> v \<noteq> Null \<Longrightarrow> \<exists>x. getProp h v p = Inr x"
  by (cases "getProp h v p") (auto simp: getProp_error)

lemma invoke_flag:
  "remoteClockLoaded (fst (invoke st h request waited)) =
     (remoteClockLoaded st \<or> boundsArrived waited)"
proof (cases waited)
  case (Fulfilled b)
  show ?thesis
  proof (cases "b = Undefined \<or> b = Null")
    case True
    then have "getProp h b ''start'' = Inl TypeError"
      by (simp add: getProp_error)
    with True Fulfilled show ?thesis
      by (auto simp: invoke_def boundsArrived_def)
  next
    case False
    then obtain s e where "getProp h b ''start'' = Inr s" "getProp h b ''end'' = Inr e"
      using getProp_total by blast
    with False Fulfilled show ?thesis
      by (auto simp: invoke_def boundsArrived_def Let_def split: sum.splits)
  qed
qed (simp_all add: invoke_def boundsArrived_def)

lemma resumeAll_flag:
  "remoteClockLoaded (fst (resumeAll evs (st, h))) =
     (remoteClockLoaded st \<or> (\<exists>ev \<in> set evs. boundsArrived (snd ev)))"
proof (induction evs arbitrary: st h)
  case Nil
  show ?case by simp
next
  case (Cons ev evs)
  obtain request waited where ev: "ev = (request, waited)"
    by (cases ev)
  obtain st' h' r where inv: "invoke st h request waited = (st', h', r)"
    by (cases "invoke st h request waited")
  have "remoteClockLoaded st' = (remoteClockLoaded st \<or> boundsArrived waited)"
    using invoke_flag [of st h request waited] inv by simp
  with Cons.IH [of st' h'] ev inv show ?case
    by auto
qed

text \<open>
  When \<open>invoke\<close> is fulfilled, and only then: the request is an object of the store and
  the bounds arrived. It is the other direction of claim C10's theorem below.
\<close>

lemma invoke_fulfilled_iff:
  "invoke st h request waited = (st', h', Fulfilled v) \<longleftrightarrow>
     (\<exists>a ob b s e. request = Ref a \<and> h a = Some ob \<and> waited = Fulfilled b \<and>
        getProp h b ''start'' = Inr s \<and> getProp h b ''end'' = Inr e \<and>
        v = request \<and> st' = st\<lparr>remoteClockLoaded := True\<rparr> \<and>
        h' = h(a \<mapsto> ob(''start'' \<mapsto> s, ''end'' \<mapsto> e)))"
  by (cases waited; cases request)
     (auto simp: invoke_def setProp_def Let_def split: sum.splits option.splits)

lemma invoke_ignores_flag:
  "snd (invoke st h request waited) = snd (invoke st2 h request waited)"
  by (simp add: invoke_def Let_def split: outcome.splits sum.splits)

lemma invoke_without_bounds:
  "\<not> boundsArrived waited \<Longrightarrow> fst (invoke st h request waited) = st"
  using invoke_flag [of st h request waited] by (cases st) (auto intro: interceptor.equality)

text \<open>
  Claim C9, as amended. After any history of invocations of a fresh interceptor,
  \<open>appliesTo\<close> answers true exactly when the active clock is defined with key
  \<open>remote-clock\<close> and no invocation of the history has set \<open>remoteClockLoaded\<close>, which
  an invocation does when its bounds arrive. From any state: once an invocation has set
  the flag, \<open>appliesTo\<close> answers false for every time context, whatever invocations
  resume later; an invocation that ends without its bounds (a rejection, or bounds that
  cannot be destructured) leaves the flag as it was; and \<open>invoke\<close> never reads the flag,
  so what an invocation does to the store and how it ends is the same whether or not the
  flag is set. The interceptor admits no request after the flag is set, and does not fire
  at most once: every invocation called before that runs.
\<close>

theorem appliesTo_until_first_invoke:
  "(appliesTo (fst (resumeAll evs (remoteClockRequestInterceptor, h))) ctx \<longleftrightarrow>
      remoteClockActive ctx \<and> \<not> (\<exists>ev \<in> set evs. boundsArrived (snd ev))) \<and>
   (boundsArrived waited \<longrightarrow>
      \<not> appliesTo (fst (resumeAll later (fst (invoke st h request waited), h'))) ctx') \<and>
   (\<not> boundsArrived waited \<longrightarrow> fst (invoke st h request waited) = st) \<and>
   snd (invoke st h request waited) = snd (invoke st2 h request waited)"
proof (intro conjI)
  have "remoteClockLoaded (fst (resumeAll evs (remoteClockRequestInterceptor, h))) =
          (\<exists>ev \<in> set evs. boundsArrived (snd ev))"
    by (simp add: resumeAll_flag remoteClockRequestInterceptor_def)
  then show "appliesTo (fst (resumeAll evs (remoteClockRequestInterceptor, h))) ctx \<longleftrightarrow>
      remoteClockActive ctx \<and> \<not> (\<exists>ev \<in> set evs. boundsArrived (snd ev))"
    by (simp add: appliesTo_def remoteClockActive_def split: option.splits)
next
  show "boundsArrived waited \<longrightarrow>
      \<not> appliesTo (fst (resumeAll later (fst (invoke st h request waited), h'))) ctx'"
  proof
    assume "boundsArrived waited"
    then have "remoteClockLoaded (fst (invoke st h request waited))"
      by (simp add: invoke_flag)
    then have "remoteClockLoaded (fst (resumeAll later (fst (invoke st h request waited), h')))"
      by (simp add: resumeAll_flag)
    then show "\<not> appliesTo (fst (resumeAll later (fst (invoke st h request waited), h'))) ctx'"
      by (simp add: appliesTo_def split: option.splits)
  qed
next
  show "\<not> boundsArrived waited \<longrightarrow> fst (invoke st h request waited) = st"
    by (simp add: invoke_without_bounds)
next
  show "snd (invoke st h request waited) = snd (invoke st2 h request waited)"
    by (rule invoke_ignores_flag)
qed

theorem appliesTo_until_first_invoke_witness:
  "appliesTo remoteClockRequestInterceptor \<lparr>activeClock = Some \<lparr>key = ''remote-clock''\<rparr>\<rparr> \<and>
   boundsArrived (Fulfilled (Ref 1)) \<and>
   \<not> appliesTo
        (fst (resumeAll [(Ref 0, Pending)]
           (fst (invoke remoteClockRequestInterceptor
                   [0 \<mapsto> Map.empty, 1 \<mapsto> [''start'' \<mapsto> Number 5, ''end'' \<mapsto> Number 9]]
                   (Ref 0) (Fulfilled (Ref 1))),
            Map.empty)))
        \<lparr>activeClock = Some \<lparr>key = ''remote-clock''\<rparr>\<rparr> \<and>
   \<not> boundsArrived (Rejected TypeError :: jsval outcome) \<and>
   fst (invoke remoteClockRequestInterceptor Map.empty (Ref 0) (Rejected TypeError)) =
     remoteClockRequestInterceptor"
proof -
  have arrived: "boundsArrived (Fulfilled (Ref 1))"
    by (simp add: boundsArrived_def)
  have rejected: "\<not> boundsArrived (Rejected TypeError :: jsval outcome)"
    by (simp add: boundsArrived_def)
  have before: "appliesTo remoteClockRequestInterceptor \<lparr>activeClock = Some \<lparr>key = ''remote-clock''\<rparr>\<rparr>"
    using appliesTo_until_first_invoke
      [of "[]" Map.empty "\<lparr>activeClock = Some \<lparr>key = ''remote-clock''\<rparr>\<rparr>" Pending]
    by (simp add: remoteClockActive_def)
  have unset: "fst (invoke remoteClockRequestInterceptor Map.empty (Ref 0) (Rejected TypeError)) =
     remoteClockRequestInterceptor"
    using rejected
      appliesTo_until_first_invoke
        [of "[]" Map.empty "\<lparr>activeClock = None\<rparr>" "Rejected TypeError" "[]"
            remoteClockRequestInterceptor "Ref 0"]
    by blast
  show ?thesis
    using arrived rejected before unset
      appliesTo_until_first_invoke
        [of "[]" "[0 \<mapsto> Map.empty, 1 \<mapsto> [''start'' \<mapsto> Number 5, ''end'' \<mapsto> Number 9]]"
            "\<lparr>activeClock = None\<rparr>" "Fulfilled (Ref 1)" "[(Ref 0, Pending)]"
            remoteClockRequestInterceptor "Ref 0" Map.empty
            "\<lparr>activeClock = Some \<lparr>key = ''remote-clock''\<rparr>\<rparr>"]
    by simp
qed

text \<open>
  Claim C9 as stated fails twice. Two requests arrive while the remote clock is active and
  before any bounds: \<open>appliesTo\<close> is true for both, in the same state, and both are
  invoked. The first to resume sets the flag; the second resumes all the same, rewrites
  its request and is fulfilled: the interceptor fired twice. And an invocation that has
  completed by rejection leaves \<open>appliesTo\<close> true.
\<close>

theorem interceptor_fires_twice_counterexample:
  "appliesTo remoteClockRequestInterceptor remoteClockContext \<and>
   remoteClockLoaded (fst firstResumed) \<and>
   snd (snd firstResumed) = Fulfilled (Ref 0) \<and>
   snd (snd secondResumed) = Fulfilled (Ref 1) \<and>
   fst (snd secondResumed) 1 = Some [''start'' \<mapsto> Number 5, ''end'' \<mapsto> Number 9] \<and>
   appliesTo
     (fst (invoke remoteClockRequestInterceptor twoRequests (Ref 0) (Rejected (Thrown (Str ''timeout'')))))
     remoteClockContext"
  by (simp add: secondResumed_def firstResumed_def invoke_def getProp_def setProp_def
        twoRequests_def appliesTo_def remoteClockContext_def remoteClockRequestInterceptor_def)

text \<open>
  Claim C10. Given a request that is an object and bounds that arrived, \<open>invoke\<close> is
  fulfilled with the request it was given (the same address), and in the store that
  object has \<open>start\<close> and \<open>end\<close> as read from the bounds; every other property of the
  request, and every other object, is as before.
\<close>

theorem invoke_overwrites_start_end:
  assumes "request = Ref a" and "h a = Some ob" and "waited = Fulfilled b"
    and "b \<noteq> Undefined" and "b \<noteq> Null"
  shows "\<exists>s e ob' h'.
     getProp h b ''start'' = Inr s \<and> getProp h b ''end'' = Inr e \<and>
     invoke st h request waited = (st\<lparr>remoteClockLoaded := True\<rparr>, h', Fulfilled request) \<and>
     h' a = Some ob' \<and> ob' ''start'' = Some s \<and> ob' ''end'' = Some e \<and>
     (\<forall>p. p \<noteq> ''start'' \<and> p \<noteq> ''end'' \<longrightarrow> ob' p = ob p) \<and>
     (\<forall>a'. a' \<noteq> a \<longrightarrow> h' a' = h a')"
proof -
  obtain s e where se: "getProp h b ''start'' = Inr s" "getProp h b ''end'' = Inr e"
    using getProp_total assms(4,5) by blast
  let ?h' = "h(a \<mapsto> ob(''start'' \<mapsto> s, ''end'' \<mapsto> e))"
  have "invoke st h request waited = (st\<lparr>remoteClockLoaded := True\<rparr>, ?h', Fulfilled request)"
    using assms(1-3) se by (simp add: invoke_fulfilled_iff)
  with se show ?thesis
    by (intro exI [of _ s] exI [of _ e] exI [of _ "ob(''start'' \<mapsto> s, ''end'' \<mapsto> e)"]
        exI [of _ ?h']) simp
qed

theorem invoke_overwrites_start_end_witness:
  "\<exists>h' ob'.
     invoke \<lparr>remoteClockLoaded = False\<rparr>
       [0 \<mapsto> [''domain'' \<mapsto> Str ''telemetry'', ''start'' \<mapsto> Number 0],
        1 \<mapsto> [''start'' \<mapsto> Number 5, ''end'' \<mapsto> Number 9]]
       (Ref 0) (Fulfilled (Ref 1))
       = (\<lparr>remoteClockLoaded = True\<rparr>, h', Fulfilled (Ref 0)) \<and>
     h' 0 = Some ob' \<and> ob' ''start'' = Some (Number 5) \<and> ob' ''end'' = Some (Number 9) \<and>
     ob' ''domain'' = Some (Str ''telemetry'') \<and>
     h' 1 = Some [''start'' \<mapsto> Number 5, ''end'' \<mapsto> Number 9]"
proof -
  let ?h = "[0 \<mapsto> [''domain'' \<mapsto> Str ''telemetry'', ''start'' \<mapsto> Number 0],
             1 \<mapsto> [''start'' \<mapsto> Number 5, ''end'' \<mapsto> Number 9]] :: store"
  have s: "getProp ?h (Ref 1) ''start'' = Inr (Number 5)"
    and e: "getProp ?h (Ref 1) ''end'' = Inr (Number 9)"
    by (simp_all add: getProp_def)
  from invoke_overwrites_start_end
    [of "Ref 0" 0 ?h "[''domain'' \<mapsto> Str ''telemetry'', ''start'' \<mapsto> Number 0]"
        "Fulfilled (Ref 1)" "Ref 1" "\<lparr>remoteClockLoaded = False\<rparr>"]
  obtain s' e' ob' h' where
    r: "getProp ?h (Ref 1) ''start'' = Inr s'" "getProp ?h (Ref 1) ''end'' = Inr e'"
       "invoke \<lparr>remoteClockLoaded = False\<rparr> ?h (Ref 0) (Fulfilled (Ref 1))
          = (\<lparr>remoteClockLoaded = False\<rparr>\<lparr>remoteClockLoaded := True\<rparr>, h', Fulfilled (Ref 0))"
       "h' 0 = Some ob'" "ob' ''start'' = Some s'" "ob' ''end'' = Some e'"
       "\<forall>p. p \<noteq> ''start'' \<and> p \<noteq> ''end'' \<longrightarrow>
            ob' p = [''domain'' \<mapsto> Str ''telemetry'', ''start'' \<mapsto> Number 0] p"
       "\<forall>a'. a' \<noteq> 0 \<longrightarrow> h' a' = ?h a'"
    by auto
  from r(1,2) s e have "s' = Number 5" "e' = Number 9"
    by simp_all
  moreover from r(7) have "ob' ''domain'' = Some (Str ''telemetry'')"
    by simp
  moreover from r(8) have "h' 1 = Some [''start'' \<mapsto> Number 5, ''end'' \<mapsto> Number 9]"
    by simp
  ultimately show ?thesis
    using r(3-6) by auto
qed

section \<open>Properties of the string operations\<close>

lemma splitOn_ne: "splitOn sep s \<noteq> []"
  by (induction sep s rule: splitOn.induct) (auto split: list.splits)

lemma join_Cons: "ps \<noteq> [] \<Longrightarrow> js_join (p # ps) sep = p @ sep @ js_join ps sep"
  by (cases ps) auto

lemma join_Cons_first: "js_join ((c # p) # ps) sep = c # js_join (p # ps) sep"
  by (cases ps) auto

lemma join_empty: "js_join xs [] = concat xs"
  by (induction xs "[] :: 'a list" rule: js_join.induct) auto

text \<open>Joining the pieces with the separator gives the string back.\<close>

lemma join_splitOn: "sep \<noteq> [] \<Longrightarrow> js_join (splitOn sep s) sep = s"
proof (induction sep s rule: splitOn.induct)
  case (1 sep)
  show ?case by simp
next
  case (2 sep c cs)
  show ?case
  proof (cases "prefix sep (c # cs)")
    case True
    then have "sep @ drop (length sep) (c # cs) = c # cs"
      by (metis append_eq_conv_conj prefix_def)
    with True 2 show ?thesis
      by (simp add: join_Cons splitOn_ne)
  next
    case False
    obtain p ps where pps: "splitOn sep cs = p # ps"
      using splitOn_ne [of sep cs] by (cases "splitOn sep cs") auto
    with False 2 show ?thesis
      by (simp add: join_Cons_first)
  qed
qed

lemma splitOn_first_prefix: "splitOn sep s = p # ps \<Longrightarrow> prefix p s"
proof (induction sep s arbitrary: p ps rule: splitOn.induct)
  case (1 sep)
  then show ?case by simp
next
  case (2 sep c cs)
  show ?case
  proof (cases "sep \<noteq> [] \<and> prefix sep (c # cs)")
    case True
    with 2 show ?thesis by auto
  next
    case False
    obtain q qs where q: "splitOn sep cs = q # qs"
      using splitOn_ne [of sep cs] by (cases "splitOn sep cs") auto
    with False 2 show ?thesis by auto
  qed
qed

text \<open>\<open>js_includes\<close> is the substring test.\<close>

lemma includes_iff: "js_includes s sub \<longleftrightarrow> (\<exists>u v. s = u @ sub @ v)"
proof (induction s)
  case Nil
  show ?case by auto
next
  case (Cons c cs)
  show ?case
  proof
    assume "js_includes (c # cs) sub"
    then consider "prefix sub (c # cs)" | "js_includes cs sub" by auto
    then show "\<exists>u v. c # cs = u @ sub @ v"
    proof cases
      case 1
      then show ?thesis unfolding prefix_def by (metis append_Nil)
    next
      case 2
      with Cons obtain u v where "cs = u @ sub @ v" by auto
      then have "c # cs = (c # u) @ sub @ v" by simp
      then show ?thesis by blast
    qed
  next
    assume "\<exists>u v. c # cs = u @ sub @ v"
    then obtain u v where uv: "c # cs = u @ sub @ v" by auto
    show "js_includes (c # cs) sub"
    proof (cases u)
      case Nil
      with uv have "prefix sub (c # cs)" by (simp add: prefix_def)
      then show ?thesis by simp
    next
      case (Cons d u')
      with uv have "cs = u' @ sub @ v" by simp
      with Cons.IH show ?thesis by auto
    qed
  qed
qed

text \<open>No piece of a split holds the separator.\<close>

lemma splitOn_pieces: "sep \<noteq> [] \<Longrightarrow> p \<in> set (splitOn sep s) \<Longrightarrow> \<not> js_includes p sep"
proof (induction sep s arbitrary: p rule: splitOn.induct)
  case (1 sep)
  then show ?case by (cases sep) auto
next
  case (2 sep c cs)
  show ?case
  proof (cases "prefix sep (c # cs)")
    case True
    with 2 show ?thesis by (cases sep) auto
  next
    case False
    obtain q qs where q: "splitOn sep cs = q # qs"
      using splitOn_ne [of sep cs] by (cases "splitOn sep cs") auto
    with False 2 have "p = c # q \<or> p \<in> set qs" by auto
    then show ?thesis
    proof
      assume p: "p = c # q"
      have "prefix q cs" using q by (rule splitOn_first_prefix)
      then have "\<not> prefix sep (c # q)"
        using False by (meson Cons_prefix_Cons prefix_order.trans)
      moreover have "\<not> js_includes q sep"
        using 2 False q by auto
      ultimately show ?thesis using p by simp
    next
      assume "p \<in> set qs"
      with 2 False q show ?thesis by auto
    qed
  qed
qed

text \<open>A string without the separator is one piece, so the test \<open>includes\<close> before the
  split in \<open>clickedResult\<close> changes nothing.\<close>

lemma splitOn_none: "\<not> js_includes s sep \<Longrightarrow> splitOn sep s = [s]"
  by (induction sep s rule: splitOn.induct) auto

section \<open>Properties of the search result component\<close>

text \<open>
  Claim C6, as amended. \<open>dragStart\<close> always sets two formats: the serialized original path
  under \<open>openmct/domain-object-path\<close>, and the result itself under a format derived from
  its identifier, \<open>openmct/domain-object/\<close> followed by the key string. The serialized
  result, under \<open>openmct/composable-domain-object\<close>, is set only when the composition
  policy lets the result be composed into the navigated object. The three formats differ,
  so on an empty drag data store there are three entries when the policy allows and two
  otherwise.
\<close>

theorem dragStart_payloads:
  "dom (dragStart openmct result dt) =
     dom dt \<union>
     {''openmct/domain-object-path'',
      ''openmct/domain-object/'' @ makeKeyString openmct (identifier' result)} \<union>
     (if checkPolicy openmct (navigatedObject openmct) result
      then {''openmct/composable-domain-object''} else {}) \<and>
   dragStart openmct result dt ''openmct/domain-object-path'' =
     Some (Text (stringifyPath openmct (originalPath result))) \<and>
   dragStart openmct result dt
       (''openmct/domain-object/'' @ makeKeyString openmct (identifier' result)) =
     Some (Object result) \<and>
   dragStart openmct result dt ''openmct/composable-domain-object'' =
     (if checkPolicy openmct (navigatedObject openmct) result
      then Some (Text (stringifyResult openmct result))
      else dt ''openmct/composable-domain-object'') \<and>
   card (dom (dragStart openmct result Map.empty)) =
     (if checkPolicy openmct (navigatedObject openmct) result then 3 else 2)"
  by (auto simp: dragStart_def setData_def Let_def)

text \<open>
  Claim C6 as stated fails where the policy refuses: dragging \<open>mineResult\<close> on
  \<open>browsingHost\<close> sets two formats, and none for the serialized result.
\<close>

theorem dragStart_two_payloads_counterexample:
  "card (dom (dragStart browsingHost mineResult Map.empty)) = 2 \<and>
   dragStart browsingHost mineResult Map.empty ''openmct/composable-domain-object'' = None"
  by (simp add: dragStart_def setData_def Let_def browsingHost_def mineResult_def
        navigatedObject_def)

lemma concat_splitOn_Cons:
  "\<not> prefix sep (c # cs) \<Longrightarrow> concat (splitOn sep (c # cs)) = c # concat (splitOn sep cs)"
  using splitOn_ne [of sep cs] by (cases "splitOn sep cs") auto

text \<open>No occurrence of the separator begins in a stretch without its first character.\<close>

lemma concat_splitOn_skip:
  "x \<notin> set pre \<Longrightarrow> concat (splitOn (x # t) (pre @ rest)) = pre @ concat (splitOn (x # t) rest)"
proof (induction pre)
  case Nil
  show ?case by simp
next
  case (Cons c pre)
  then have "\<not> prefix (x # t) (c # pre @ rest)" by auto
  with Cons show ?case
    using concat_splitOn_Cons [of "x # t" c "pre @ rest"] by simp
qed

text \<open>
  Where no segment but \<open>ROOT\<close> itself begins with \<open>ROOT\<close>, splitting at \<open>/ROOT\<close> and
  putting the pieces together removes the segments \<open>ROOT\<close> and nothing else.
\<close>

lemma concat_splitOn_segments:
  "\<forall>seg \<in> set segs. CHR ''/'' \<notin> set seg \<and> (prefix ''ROOT'' seg \<longrightarrow> seg = ''ROOT'') \<Longrightarrow>
   concat (splitOn ''/ROOT'' (urlOfSegments [] segs)) =
     urlOfSegments [] (filter (\<lambda>seg. seg \<noteq> ''ROOT'') segs)"
proof (induction segs)
  case Nil
  show ?case by (simp add: urlOfSegments_def)
next
  case (Cons seg segs)
  let ?rest = "urlOfSegments [] segs"
  have IH: "concat (splitOn ''/ROOT'' ?rest) = urlOfSegments [] (filter (\<lambda>seg. seg \<noteq> ''ROOT'') segs)"
    using Cons by simp
  have slash: "CHR ''/'' \<notin> set seg" using Cons.prems by simp
  have url: "urlOfSegments [] (seg # segs) = CHR ''/'' # seg @ ?rest"
    by (simp add: urlOfSegments_def)
  show ?case
  proof (cases "seg = ''ROOT''")
    case True
    then have "splitOn ''/ROOT'' (urlOfSegments [] (seg # segs)) = [] # splitOn ''/ROOT'' ?rest"
      by (simp add: urlOfSegments_def)
    with True IH show ?thesis by simp
  next
    case False
    with Cons.prems have np: "\<not> prefix ''ROOT'' seg" by simp
    have "\<not> prefix ''ROOT'' (seg @ ?rest)"
    proof
      assume "prefix ''ROOT'' (seg @ ?rest)"
      with np obtain us where us: "''ROOT'' = seg @ us" "prefix us ?rest"
        by (auto simp: prefix_append)
      with np have "us \<noteq> []" by auto
      then obtain u us' where u: "us = u # us'" by (cases us) auto
      with us(1) have "u \<in> set ''ROOT''"
        by (metis in_set_conv_decomp)
      then have "u \<noteq> CHR ''/''" by auto
      moreover have "hd ?rest = CHR ''/''"
        using us(2) u by (cases segs) (auto simp: urlOfSegments_def)
      moreover have "hd ?rest = u"
        using us(2) u by (auto simp: prefix_def)
      ultimately show False by simp
    qed
    then have "\<not> prefix ''/ROOT'' (CHR ''/'' # seg @ ?rest)"
      by simp
    then have "concat (splitOn ''/ROOT'' (CHR ''/'' # seg @ ?rest)) =
        CHR ''/'' # concat (splitOn ''/ROOT'' (seg @ ?rest))"
      by (rule concat_splitOn_Cons)
    also have "concat (splitOn ''/ROOT'' (seg @ ?rest)) = seg @ concat (splitOn ''/ROOT'' ?rest)"
      using slash by (rule concat_splitOn_skip)
    finally show ?thesis
      using False IH by (simp add: url urlOfSegments_def)
  qed
qed

lemma concat_split_segments:
  assumes "CHR ''/'' \<notin> set pre"
    and "\<forall>seg \<in> set segs. CHR ''/'' \<notin> set seg \<and> (prefix ''ROOT'' seg \<longrightarrow> seg = ''ROOT'')"
  shows "concat (js_split (urlOfSegments pre segs) ''/ROOT'') =
     urlOfSegments pre (filter (\<lambda>seg. seg \<noteq> ''ROOT'') segs)"
proof -
  have "urlOfSegments pre segs = pre @ urlOfSegments [] segs"
    by (simp add: urlOfSegments_def)
  then have "concat (js_split (urlOfSegments pre segs) ''/ROOT'') =
      pre @ concat (splitOn ''/ROOT'' (urlOfSegments [] segs))"
    using concat_splitOn_skip [OF assms(1), of "''ROOT''" "urlOfSegments [] segs"]
    by (simp add: js_split_def)
  also have "\<dots> = pre @ urlOfSegments [] (filter (\<lambda>seg. seg \<noteq> ''ROOT'') segs)"
    using concat_splitOn_segments [OF assms(2)] by simp
  finally show ?thesis
    by (simp add: urlOfSegments_def)
qed

lemma clickedResult_navigates:
  "\<not> isEditing openmct \<Longrightarrow>
   clickedResult openmct result =
     [Navigate (concat (js_split (objectPathToUrl openmct (originalPath result)) ''/ROOT''))]"
  by (simp add: clickedResult_def Let_def js_split_def join_empty splitOn_none)

text \<open>
  Claim C7, as amended. While the host is editing, a click suppresses the default
  behaviour and invokes the preview action on the original path if the preview action
  applies to that path, and does nothing more if it does not. Otherwise the click does one
  thing, a navigation; and where the URL of the original path is made of segments of which
  none but \<open>ROOT\<close> itself begins with \<open>ROOT\<close>, the router gets that URL with every
  segment \<open>/ROOT\<close> removed and every other segment in place. What the router gets for a
  URL with a segment that only begins with \<open>ROOT\<close> is left open here.
\<close>

theorem clickedResult_preview_or_navigate:
  "(isEditing openmct \<longrightarrow>
      clickedResult openmct result =
        (if previewAppliesTo openmct (originalPath result)
         then [PreventDefault, PreviewInvoke (originalPath result)]
         else [PreventDefault])) \<and>
   (\<not> isEditing openmct \<longrightarrow> (\<exists>url. clickedResult openmct result = [Navigate url])) \<and>
   (\<not> isEditing openmct \<and>
    objectPathToUrl openmct (originalPath result) = urlOfSegments pre segs \<and>
    CHR ''/'' \<notin> set pre \<and>
    (\<forall>seg \<in> set segs. CHR ''/'' \<notin> set seg \<and> (prefix ''ROOT'' seg \<longrightarrow> seg = ''ROOT'')) \<longrightarrow>
      clickedResult openmct result =
        [Navigate (urlOfSegments pre (filter (\<lambda>seg. seg \<noteq> ''ROOT'') segs))])"
proof (intro conjI impI)
  assume "isEditing openmct"
  then show "clickedResult openmct result =
        (if previewAppliesTo openmct (originalPath result)
         then [PreventDefault, PreviewInvoke (originalPath result)]
         else [PreventDefault])"
    by (simp add: clickedResult_def preview_def Let_def)
next
  assume "\<not> isEditing openmct"
  then show "\<exists>url. clickedResult openmct result = [Navigate url]"
    by (simp add: clickedResult_navigates)
next
  assume a: "\<not> isEditing openmct \<and>
    objectPathToUrl openmct (originalPath result) = urlOfSegments pre segs \<and>
    CHR ''/'' \<notin> set pre \<and>
    (\<forall>seg \<in> set segs. CHR ''/'' \<notin> set seg \<and> (prefix ''ROOT'' seg \<longrightarrow> seg = ''ROOT''))"
  then have "concat (js_split (urlOfSegments pre segs) ''/ROOT'') =
     urlOfSegments pre (filter (\<lambda>seg. seg \<noteq> ''ROOT'') segs)"
    using concat_split_segments [of pre segs] by blast
  with a show "clickedResult openmct result =
        [Navigate (urlOfSegments pre (filter (\<lambda>seg. seg \<noteq> ''ROOT'') segs))]"
    by (simp add: clickedResult_navigates)
qed

theorem clickedResult_preview_or_navigate_witness:
  "clickedResult browsingHost mineResult = [Navigate ''/browse/mine''] \<and>
   objectPathToUrl browsingHost (originalPath mineResult) = ''/browse/ROOT/mine'' \<and>
   isEditing (browsingHost\<lparr>isEditing := True, previewAppliesTo := (\<lambda>path. True)\<rparr>) \<and>
   clickedResult (browsingHost\<lparr>isEditing := True, previewAppliesTo := (\<lambda>path. True)\<rparr>) mineResult =
     [PreventDefault, PreviewInvoke [''mine'', ''ROOT'']]"
proof -
  have url: "objectPathToUrl browsingHost (originalPath mineResult) =
      urlOfSegments [] [''browse'', ''ROOT'', ''mine'']"
    by (simp add: browsingHost_def mineResult_def urlOfSegments_def)
  have segs: "\<forall>seg \<in> set [''browse'', ''ROOT'', ''mine''].
      CHR ''/'' \<notin> set seg \<and> (prefix ''ROOT'' seg \<longrightarrow> seg = ''ROOT'')"
    by simp
  have browsing: "\<not> isEditing browsingHost"
    by (simp add: browsingHost_def)
  from clickedResult_preview_or_navigate
         [of browsingHost mineResult "[]" "[''browse'', ''ROOT'', ''mine'']"]
       url segs browsing
  have "clickedResult browsingHost mineResult =
      [Navigate (urlOfSegments [] (filter (\<lambda>seg. seg \<noteq> ''ROOT'') [''browse'', ''ROOT'', ''mine'']))]"
    by simp
  then have nav: "clickedResult browsingHost mineResult = [Navigate ''/browse/mine'']"
    by (simp add: urlOfSegments_def)
  have editing: "isEditing (browsingHost\<lparr>isEditing := True, previewAppliesTo := (\<lambda>path. True)\<rparr>)"
    by simp
  from clickedResult_preview_or_navigate
         [of "browsingHost\<lparr>isEditing := True, previewAppliesTo := (\<lambda>path. True)\<rparr>" mineResult]
       editing
  have "clickedResult (browsingHost\<lparr>isEditing := True, previewAppliesTo := (\<lambda>path. True)\<rparr>) mineResult =
     [PreventDefault, PreviewInvoke [''mine'', ''ROOT'']]"
    by (simp add: mineResult_def)
  with nav editing show ?thesis
    by (simp add: browsingHost_def mineResult_def)
qed

text \<open>
  Claim C7 as stated fails twice. By design, where the preview action does not apply: the
  host is editing, and the click on \<open>mineResult\<close> only suppresses the default behaviour.
  And by a slip, where a segment only begins with \<open>ROOT\<close>: the URL \<open>/browse/ROOTS/x\<close>
  of \<open>rootsResult\<close> has no segment \<open>ROOT\<close> to get rid of, and the click navigates to
  \<open>/browseS/x\<close>.
\<close>

theorem clickedResult_no_preview_counterexample:
  "isEditing (browsingHost\<lparr>isEditing := True\<rparr>) \<and>
   clickedResult (browsingHost\<lparr>isEditing := True\<rparr>) mineResult = [PreventDefault] \<and>
   \<not> isEditing browsingHost \<and>
   objectPathToUrl browsingHost (originalPath rootsResult) = ''/browse/ROOTS/x'' \<and>
   clickedResult browsingHost rootsResult = [Navigate ''/browseS/x'']"
proof -
  have "js_split ''/browse/ROOTS/x'' ''/ROOT'' = [''/browse'', ''S/x'']"
    by code_simp
  then show ?thesis
    by (simp add: clickedResult_navigates clickedResult_def preview_def browsingHost_def
          mineResult_def rootsResult_def)
qed

section \<open>Properties of the time conductor\<close>

lemma setMode_offsets:
  "setMode clk m c = Inr c' \<Longrightarrow> startOffset c' = startOffset c \<and> endOffset c' = endOffset c"
  by (auto simp: setMode_def split: mode.splits option.splits)

lemma session_offsets:
  "startOffset (session evs c) = startOffset c \<and> endOffset (session evs c) = endOffset c"
proof (induction evs c rule: session.induct)
  case (1 c)
  show ?case by simp
next
  case (2 activeClockNow m evs c)
  show ?case
  proof (cases "setMode activeClockNow m c")
    case (Inl err)
    with 2 show ?thesis by simp
  next
    case (Inr c')
    with 2 setMode_offsets [OF Inr] show ?thesis by simp
  qed
next
  case (3 now evs c)
  then show ?case by (simp add: tick_def)
qed

text \<open>
  Claim C2. Switching modes never discards the stored offsets: whatever \<open>setMode\<close>
  returns has the offsets it was given, and so has the state after any session of mode
  switches and clock ticks. In particular the round trips Fixed, RealTime, Fixed and
  RealTime, Fixed, RealTime go through (with an active clock for the switch into
  RealTime, whatever it reads and whether or not it ticked in between) and end with the
  start and end offsets they began with.
\<close>

theorem setMode_keeps_offsets:
  "(setMode clk m c = Inr c' \<longrightarrow> startOffset c' = startOffset c \<and> endOffset c' = endOffset c) \<and>
   startOffset (session evs c) = startOffset c \<and> endOffset (session evs c) = endOffset c \<and>
   (\<exists>c1 c2. setMode (Some now) RealTime c = Inr c1 \<and> setMode clk Fixed c1 = Inr c2 \<and>
       mode c2 = Fixed \<and> startOffset c2 = startOffset c \<and> endOffset c2 = endOffset c) \<and>
   (\<exists>c1 c2 c3. setMode clk Fixed c = Inr c1 \<and> setMode (Some now) RealTime c1 = Inr c2 \<and>
       setMode clk Fixed c2 = Inr c3 \<and> mode c2 = RealTime \<and>
       startOffset c2 = startOffset c \<and> endOffset c2 = endOffset c \<and>
       startOffset c3 = startOffset c \<and> endOffset c3 = endOffset c)"
proof (intro conjI)
  show "setMode clk m c = Inr c' \<longrightarrow> startOffset c' = startOffset c \<and> endOffset c' = endOffset c"
    using setMode_offsets by blast
  show "startOffset (session evs c) = startOffset c" and "endOffset (session evs c) = endOffset c"
    by (simp_all add: session_offsets)
  show "\<exists>c1 c2. setMode (Some now) RealTime c = Inr c1 \<and> setMode clk Fixed c1 = Inr c2 \<and>
       mode c2 = Fixed \<and> startOffset c2 = startOffset c \<and> endOffset c2 = endOffset c"
    by (simp add: setMode_def)
  show "\<exists>c1 c2 c3. setMode clk Fixed c = Inr c1 \<and> setMode (Some now) RealTime c1 = Inr c2 \<and>
       setMode clk Fixed c2 = Inr c3 \<and> mode c2 = RealTime \<and>
       startOffset c2 = startOffset c \<and> endOffset c2 = endOffset c \<and>
       startOffset c3 = startOffset c \<and> endOffset c3 = endOffset c"
    by (simp add: setMode_def)
qed

theorem setMode_keeps_offsets_witness:
  "\<exists>c'. setMode (Some 5000000) RealTime exampleController = Inr c' \<and>
     startOffset c' = \<lparr>hours = 0, minutes = 30, seconds = 0\<rparr> \<and>
     endOffset c' = \<lparr>hours = 0, minutes = 0, seconds = 30\<rparr>"
proof -
  obtain c' where c': "setMode (Some 5000000) RealTime exampleController = Inr c'"
    by (simp add: setMode_def)
  with setMode_keeps_offsets [of "Some 5000000" RealTime exampleController c' "[]" 0]
  have "startOffset c' = startOffset exampleController \<and> endOffset c' = endOffset exampleController"
    by blast
  with c' show ?thesis
    by (simp add: exampleController_def)
qed




text \<open>
  Claim C8. With an active clock that does not tick between the two calls,
  \<open>setMode(RealTime)\<close> called on the result of \<open>setMode(RealTime)\<close> returns that result
  again: the same bounds (and the same state). Without an active clock both calls end in
  the ConfigurationError.
\<close>

theorem setMode_RealTime_idempotent:
  "(\<exists>c1. setMode (Some now) RealTime c = Inr c1 \<and> setMode (Some now) RealTime c1 = Inr c1 \<and>
      bounds c1 = boundsAt now c) \<and>
   setMode None RealTime c = Inl ConfigurationError"
  by (simp add: setMode_def boundsAt_def)

end
